theory Spec2Isabelle
  imports Main "HOL-Library.Char_ord" "HOL-Library.List_Lexorder"
begin

section \<open>Python values and exceptions\<close>

text \<open>
  The exceptions the modelled code can raise. \<open>BadInput\<close> is the structured signal of
  \<^verbatim>\<open>programs.program\<close>, carrying its reason; the others are Python's built-in ones.
\<close>

datatype error = ValueError | IndexError | KeyError | TypeError | BadInput string

text \<open>
  \<^verbatim>\<open>xs[i]\<close> on a Python list or deque: a negative index counts from the end, and an
  index outside \<open>-len .. len-1\<close> raises IndexError.
\<close>

definition getitem :: "'a list \<Rightarrow> int \<Rightarrow> error + 'a" where
  "getitem xs i =
     (if 0 \<le> i \<and> i < int (length xs) then Inr (xs ! nat i)
      else if i < 0 \<and> - int (length xs) \<le> i then Inr (xs ! nat (int (length xs) + i))
      else Inl IndexError)"

text \<open>
  \<^verbatim>\<open>xs.index(x)\<close>: the first position of \<open>x\<close>; ValueError when \<open>x\<close> is not in the list.
\<close>

fun index_from :: "nat \<Rightarrow> 'a list \<Rightarrow> 'a \<Rightarrow> error + int" where
  "index_from i [] x = Inl ValueError"
| "index_from i (y # ys) x = (if y = x then Inr (int i) else index_from (Suc i) ys x)"

definition index_of :: "'a list \<Rightarrow> 'a \<Rightarrow> error + int" where
  "index_of xs x = index_from 0 xs x"

text \<open>
  Sequence unpacking into four names (\<^verbatim>\<open>a, b, c, d = xs\<close>): Python raises ValueError
  unless the right-hand side has exactly four items.
\<close>

definition unpack4 :: "'a list \<Rightarrow> error + ('a \<times> 'a \<times> 'a \<times> 'a)" where
  "unpack4 xs = (case xs of [a, b, c, d] \<Rightarrow> Inr (a, b, c, d) | _ \<Rightarrow> Inl ValueError)"

section \<open>Python strings\<close>

text \<open>
  The terminal only ever appends characters of \<^verbatim>\<open>Terminal._ACCEPTED_CHARS\<close> (ASCII
  letters, digits, punctuation and the space) to its input line, so the string
  operations are modelled on ASCII; a \<open>char\<close> is one byte.
\<close>

definition is_space :: "char \<Rightarrow> bool" where
  "is_space c = (let n = (of_char c :: nat) in (9 \<le> n \<and> n \<le> 13) \<or> (28 \<le> n \<and> n \<le> 32))"

definition lstrip :: "string \<Rightarrow> string" where
  "lstrip s = dropWhile is_space s"

definition rstrip :: "string \<Rightarrow> string" where
  "rstrip s = rev (dropWhile is_space (rev s))"

definition lower_char :: "char \<Rightarrow> char" where
  "lower_char c = (let n = (of_char c :: nat) in if 65 \<le> n \<and> n \<le> 90 then char_of (n + 32) else c)"

definition upper_char :: "char \<Rightarrow> char" where
  "upper_char c = (let n = (of_char c :: nat) in if 97 \<le> n \<and> n \<le> 122 then char_of (n - 32) else c)"

definition lower :: "string \<Rightarrow> string" where
  "lower s = map lower_char s"

definition capitalize :: "string \<Rightarrow> string" where
  "capitalize s = (case s of [] \<Rightarrow> [] | c # cs \<Rightarrow> upper_char c # lower cs)"

definition startswith :: "string \<Rightarrow> string \<Rightarrow> bool" where
  "startswith s p = (take (length p) s = p)"

fun join :: "string \<Rightarrow> string list \<Rightarrow> string" where
  "join sep [] = []"
| "join sep [x] = x"
| "join sep (x # y # ys) = x @ sep @ join sep (y # ys)"

text \<open>\<^verbatim>\<open>s.split(" ")\<close>: cut at every single space, empty pieces kept.\<close>

fun split_space :: "string \<Rightarrow> string list" where
  "split_space [] = [[]]"
| "split_space (c # cs) =
     (if c = CHR '' '' then [] # split_space cs
      else (case split_space cs of [] \<Rightarrow> [[c]] | w # ws \<Rightarrow> (c # w) # ws))"

definition ljust :: "nat \<Rightarrow> string \<Rightarrow> string" where
  "ljust w s = s @ replicate (w - length s) CHR '' ''"

definition rjust :: "nat \<Rightarrow> char \<Rightarrow> string \<Rightarrow> string" where
  "rjust w c s = replicate (w - length s) c @ s"

definition digit_char :: "nat \<Rightarrow> char" where
  "digit_char d = (if d < 10 then char_of (48 + d) else char_of (87 + d))"

fun str_base :: "nat \<Rightarrow> nat \<Rightarrow> string" where
  "str_base b n =
     (if b < 2 \<or> n < b then [digit_char n] else str_base b (n div b) @ [digit_char (n mod b)])"

definition str_int :: "int \<Rightarrow> string" where
  "str_int i = (if i < 0 then CHR ''-'' # str_base 10 (nat (- i)) else str_base 10 (nat i))"

text \<open>\<^verbatim>\<open>"{:4}".format(i)\<close> and \<^verbatim>\<open>"{:2}".format(i)\<close>: an integer, right-aligned.\<close>

definition format_int :: "nat \<Rightarrow> int \<Rightarrow> string" where
  "format_int w i = rjust w CHR '' '' (str_int i)"

text \<open>
  \<^verbatim>\<open>"{:#04x}".format(c)\<close>: hexadecimal with the \<^verbatim>\<open>0x\<close> prefix, zero-padded after the
  sign and the prefix to a total width of four.
\<close>

definition format_hex :: "int \<Rightarrow> string" where
  "format_hex c =
     (if c < 0 then ''-0x'' @ rjust 1 CHR ''0'' (str_base 16 (nat (- c)))
      else ''0x'' @ rjust 2 CHR ''0'' (str_base 16 (nat c)))"

text \<open>
  \<^verbatim>\<open>int(s)\<close> and \<^verbatim>\<open>int(s, 16)\<close> on an ASCII string: surrounding whitespace is
  dropped, one sign is allowed, base 16 allows the prefix \<^verbatim>\<open>0x\<close> (and one underscore
  after it), the digits may be separated by single underscores, and anything else
  raises ValueError.
\<close>

definition digit_val :: "char \<Rightarrow> nat option" where
  "digit_val c =
     (let n = (of_char c :: nat) in
      if 48 \<le> n \<and> n \<le> 57 then Some (n - 48)
      else if 97 \<le> n \<and> n \<le> 122 then Some (n - 87)
      else if 65 \<le> n \<and> n \<le> 90 then Some (n - 55)
      else None)"

fun scan_digits :: "nat \<Rightarrow> nat \<Rightarrow> bool \<Rightarrow> string \<Rightarrow> nat option" where
  "scan_digits base acc prev_underscore [] = (if prev_underscore then None else Some acc)"
| "scan_digits base acc prev_underscore (c # cs) =
     (if c = CHR ''_'' then (if prev_underscore then None else scan_digits base acc True cs)
      else (case digit_val c of
              None \<Rightarrow> None
            | Some d \<Rightarrow> if d < base then scan_digits base (acc * base + d) False cs else None))"

definition py_int :: "nat \<Rightarrow> string \<Rightarrow> error + int" where
  "py_int base s =
     (let s1 = lstrip (rstrip s);
          negative = startswith s1 ''-'';
          s2 = (if startswith s1 ''-'' \<or> startswith s1 ''+'' then drop 1 s1 else s1);
          s3 = (if base = 16 \<and> (startswith s2 ''0x'' \<or> startswith s2 ''0X'')
                then (if startswith (drop 2 s2) ''_'' then drop 3 s2 else drop 2 s2)
                else s2)
      in (case scan_digits base 0 True s3 of
            None \<Rightarrow> Inl ValueError
          | Some n \<Rightarrow> Inr (if negative then - int n else int n)))"

section \<open>The terminal's scroll-back buffer and freeze state (terminal.py)\<close>

text \<open>
  \<open>Screen\<close> is the part of \<^verbatim>\<open>Terminal\<close> that \<^verbatim>\<open>output\<close> and \<^verbatim>\<open>freeze\<close> write, which is
  all a program reaches through its \<^verbatim>\<open>_terminal\<close> reference. The buffer is a deque of at
  most \<open>BUF_SIZE\<close> lines, newest first.
\<close>

record Screen =
  buf :: "string list"
  timer_time :: int
  freeze_start :: "int option"
  freeze_time :: "int option"

definition BUF_SIZE :: nat where
  "BUF_SIZE = 100"

definition add_to_buf :: "string list \<Rightarrow> string list \<Rightarrow> string list" where
  "add_to_buf lines b = foldl (\<lambda>acc line. take BUF_SIZE (line # acc)) b lines"

definition output_lines :: "string list \<Rightarrow> 'a Screen_scheme \<Rightarrow> 'a Screen_scheme" where
  "output_lines lines T = T\<lparr>buf := add_to_buf lines (buf T)\<rparr>"

definition freeze :: "int \<Rightarrow> 'a Screen_scheme \<Rightarrow> 'a Screen_scheme" where
  "freeze t T = T\<lparr>freeze_start := Some (timer_time T), freeze_time := Some t\<rparr>"

section \<open>CountdownTimer (terminal.py, lines 620-702)\<close>

record CountdownTimer =
  timeleft :: int
  warning_secs :: int
  flash_start :: "int option"
  flash_times :: "int list"

definition FLASH_TIME :: int where
  "FLASH_TIME = 3000"

definition CountdownTimer_init :: "int \<Rightarrow> int \<Rightarrow> CountdownTimer" where
  "CountdownTimer_init time_in_s warning =
     \<lparr>timeleft = time_in_s * 1000, warning_secs = warning, flash_start = None,
      flash_times = [warning, 15, 5, 4, 3, 2, 1]\<rparr>"

definition secs_left :: "CountdownTimer \<Rightarrow> int" where
  "secs_left t = timeleft t div 1000"

definition ended :: "CountdownTimer \<Rightarrow> bool" where
  "ended t = (timeleft t \<le> 0)"

text \<open>
  The inner loop of \<^verbatim>\<open>update\<close> (lines 672-674): thresholds are taken off the front of
  the queue while the queue is not empty and the seconds left are at most its head.
\<close>

fun strip_flash_times :: "int \<Rightarrow> int list \<Rightarrow> int list" where
  "strip_flash_times secs [] = []"
| "strip_flash_times secs (th # ths) =
     (if secs \<le> th then strip_flash_times secs ths else th # ths)"

text \<open>
  \<^verbatim>\<open>update\<close>, instrumented: the boolean tells whether this call executed line 669, the
  one place where a flash window is started.
\<close>

definition update_flash :: "int \<Rightarrow> CountdownTimer \<Rightarrow> bool \<times> CountdownTimer" where
  "update_flash ms_to_subtract t0 =
     (let t1 = t0\<lparr>timeleft := timeleft t0 - ms_to_subtract\<rparr> in
      if timeleft t1 \<le> 0 then (False, t1\<lparr>timeleft := 0, flash_start := None\<rparr>)
      else
        let t2 = (case flash_start t1 of
                    None \<Rightarrow> t1
                  | Some fs \<Rightarrow> if fs - timeleft t1 > FLASH_TIME
                              then t1\<lparr>flash_start := None\<rparr> else t1)
        in if flash_start t2 = None \<and> length (flash_times t2) > 0
              \<and> secs_left t2 \<le> hd (flash_times t2)
           then (True, t2\<lparr>flash_start := Some (timeleft t2),
                           flash_times := strip_flash_times (secs_left t2) (flash_times t2)\<rparr>)
           else (False, t2))"

definition update :: "int \<Rightarrow> CountdownTimer \<Rightarrow> CountdownTimer" where
  "update ms_to_subtract t = snd (update_flash ms_to_subtract t)"

text \<open>
  A run of \<^verbatim>\<open>update\<close> calls, observed: \<open>flash_log used t mss\<close> lists, for every call
  of the run that started a flash window, the position in the original queue of the
  threshold that triggered it (the head of the queue at that call). \<open>used\<close> is the number
  of thresholds already taken off the queue.
\<close>

fun flash_log :: "nat \<Rightarrow> CountdownTimer \<Rightarrow> int list \<Rightarrow> nat list" where
  "flash_log used t [] = []"
| "flash_log used t (ms # mss) =
     (let (started, t') = update_flash ms t;
          used' = used + (length (flash_times t) - length (flash_times t'))
      in (if started then [used] else []) @ flash_log used' t' mss)"

fun updates :: "CountdownTimer \<Rightarrow> int list \<Rightarrow> CountdownTimer" where
  "updates t [] = t"
| "updates t (ms # mss) = updates (update ms t) mss"

section \<open>CommandHistory and the terminal's input line (terminal.py, lines 579-617)\<close>

text \<open>
  The history is a deque, newest entry first. \<open>saved_line\<close> and the terminal's
  \<open>current_line\<close> are \<open>None\<close> where Python holds \<^verbatim>\<open>None\<close>: the saved line starts as
  \<^verbatim>\<open>None\<close>, and \<^verbatim>\<open>set_current_line\<close> stores whatever it is given.
\<close>

record CommandHistory =
  history :: "string list"
  maxlen :: nat
  pos :: int
  saved_line :: "string option"

text \<open>
  A registered program as the terminal sees it: whether it reports completed, its
  descriptive label and help string, and how often \<^verbatim>\<open>start()\<close> has been called on it.
\<close>

record Program =
  prog_completed :: bool
  security_type :: string
  help_text :: string
  start_calls :: nat

text \<open>
  \<open>programs\<close> is the dictionary from command name to program instance, in insertion
  order; \<open>depends\<close> the dictionary from command name to its prerequisites.
  \<open>font_renders\<close> stands for the font object of the terminal: whether its \<^verbatim>\<open>render\<close>
  accepts a colour (pygame is not part of the repository).
\<close>

record Terminal = Screen +
  current_line :: "string option"
  cmd_history :: CommandHistory
  programs :: "(string \<times> Program) list"
  current_program :: "string option"
  depends :: "(string \<times> string list) list"
  text_colour :: "int list"
  font_renders :: "int list \<Rightarrow> bool"

definition CommandHistory_init :: "nat \<Rightarrow> CommandHistory" where
  "CommandHistory_init n = \<lparr>history = [], maxlen = n, pos = - 1, saved_line = None\<rparr>"

definition get_current_line :: "Terminal \<Rightarrow> string option" where
  "get_current_line T = current_line T"

definition set_current_line :: "string option \<Rightarrow> Terminal \<Rightarrow> Terminal" where
  "set_current_line l T = T\<lparr>current_line := l\<rparr>"

definition add_command :: "string \<Rightarrow> CommandHistory \<Rightarrow> CommandHistory" where
  "add_command cmd h =
     (if length (history h) = 0 \<or> hd (history h) \<noteq> cmd
      then h\<lparr>history := take (maxlen h) (cmd # history h)\<rparr> else h)"

definition reset_navigation :: "CommandHistory \<Rightarrow> CommandHistory" where
  "reset_navigation h = h\<lparr>pos := - 1\<rparr>"

definition navigate :: "bool \<Rightarrow> Terminal \<Rightarrow> error + Terminal" where
  "navigate up T =
     (let h = cmd_history T in
      if up then
        (if pos h + 1 < int (length (history h)) then
           let h1 = (if pos h = - 1 then h\<lparr>saved_line := get_current_line T\<rparr> else h);
               h2 = h1\<lparr>pos := pos h1 + 1\<rparr>
           in (case getitem (history h2) (pos h2) of
                 Inl e \<Rightarrow> Inl e
               | Inr l \<Rightarrow> Inr (set_current_line (Some l) (T\<lparr>cmd_history := h2\<rparr>)))
         else Inr T)
      else
        (if pos h > 0 then
           let h1 = h\<lparr>pos := pos h - 1\<rparr>
           in (case getitem (history h1) (pos h1) of
                 Inl e \<Rightarrow> Inl e
               | Inr l \<Rightarrow> Inr (set_current_line (Some l) (T\<lparr>cmd_history := h1\<rparr>)))
         else if pos h = 0 then
           let h1 = h\<lparr>pos := - 1\<rparr>
           in Inr (set_current_line (saved_line h1) (T\<lparr>cmd_history := h1\<rparr>))
         else Inr T))"

text \<open>\<open>navigate_n up n\<close>: the same arrow key pressed \<open>n\<close> times; an exception ends the run.\<close>

fun navigate_n :: "bool \<Rightarrow> nat \<Rightarrow> Terminal \<Rightarrow> error + Terminal" where
  "navigate_n up 0 T = Inr T"
| "navigate_n up (Suc n) T =
     (case navigate up T of Inl e \<Rightarrow> Inl e | Inr T' \<Rightarrow> navigate_n up n T')"

section \<open>Command dispatch (terminal.py, lines 105-168)\<close>

text \<open>\<^verbatim>\<open>d[k]\<close> on a dictionary: KeyError when the key is missing.\<close>

definition lookup :: "('k \<times> 'v) list \<Rightarrow> 'k \<Rightarrow> error + 'v" where
  "lookup d k = (case map_of d k of None \<Rightarrow> Inl KeyError | Some v \<Rightarrow> Inr v)"

text \<open>
  \<^verbatim>\<open>[self._programs[c] for c in depends_list if not self._programs[c].completed()]\<close>:
  the programs of the prerequisites that do not report completed, in the order of the
  list. Looking up a prerequisite that is not a registered command raises KeyError.
\<close>

fun blocked_on :: "(string \<times> Program) list \<Rightarrow> string list \<Rightarrow> error + Program list" where
  "blocked_on progs [] = Inr []"
| "blocked_on progs (c # cs) =
     (case lookup progs c of
        Inl e \<Rightarrow> Inl e
      | Inr p \<Rightarrow>
          (case blocked_on progs cs of
             Inl e \<Rightarrow> Inl e
           | Inr ps \<Rightarrow> Inr (if \<not> prog_completed p then p # ps else ps)))"

definition is_cmd_runnable :: "string \<Rightarrow> Terminal \<Rightarrow> (error + bool) \<times> Terminal" where
  "is_cmd_runnable cmd T =
     (case (case map_of (depends T) cmd of
              None \<Rightarrow> Inr []
            | Some depends_list \<Rightarrow> blocked_on (programs T) depends_list) of
        Inl e \<Rightarrow> (Inl e, T)
      | Inr blocked \<Rightarrow>
          if length blocked = 0 then (Inr True, T)
          else (Inr False,
                output_lines [cmd @ '' currently blocked by: '' @
                              join '', '' (map security_type blocked)] T))"

text \<open>
  Calling \<^verbatim>\<open>start()\<close> on the program registered under a command. The programs are
  polymorphic; what the terminal's dispatch needs of the call is that it happened, so
  it is counted.
\<close>

definition start_program :: "string \<Rightarrow> (string \<times> Program) list \<Rightarrow> (string \<times> Program) list" where
  "start_program cmd progs =
     map (\<lambda>(c, p). if c = cmd then (c, p\<lparr>start_calls := start_calls p + 1\<rparr>) else (c, p)) progs"

text \<open>\<^verbatim>\<open>tuple(int(a) for a in args)\<close>: the first argument that is not a number raises.\<close>

fun ints :: "string list \<Rightarrow> error + int list" where
  "ints [] = Inr []"
| "ints (a # as) =
     (case py_int 10 a of
        Inl e \<Rightarrow> Inl e
      | Inr i \<Rightarrow> (case ints as of Inl e \<Rightarrow> Inl e | Inr is \<Rightarrow> Inr (i # is)))"

definition process_command :: "string \<Rightarrow> Terminal \<Rightarrow> (error + unit) \<times> Terminal" where
  "process_command cmd T =
     (if map_of (programs T) cmd \<noteq> None then
        (case is_cmd_runnable cmd T of
           (Inl e, T1) \<Rightarrow> (Inl e, T1)
         | (Inr False, T1) \<Rightarrow> (Inr (), T1)
         | (Inr True, T1) \<Rightarrow>
             (case lookup (programs T1) cmd of
                Inl e \<Rightarrow> (Inl e, T1)
              | Inr p \<Rightarrow>
                  let T2 = T1\<lparr>current_program := Some cmd\<rparr> in
                  if \<not> prog_completed p
                  then (Inr (), T2\<lparr>programs := start_program cmd (programs T2)\<rparr>)
                  else (Inr (),
                        (output_lines [capitalize (security_type p @ '' already completed!'')] T2)
                          \<lparr>current_program := None\<rparr>)))
      else if cmd = ''help'' \<or> cmd = ''?'' then
        (Inr (),
         output_lines (''Available commands:'' #
                       map (\<lambda>(c, p). ''  '' @ ljust 10 c @ ''   '' @ help_text p)
                         (sort_key fst (programs T))) T)
      else if startswith cmd ''colour '' then
        (let args = tl (split_space cmd) in
         if length args = 3 then
           (case ints args of
              Inl e \<Rightarrow> (Inr (), output_lines [''I am not familiar with that colour code.''] T)
            | Inr colour \<Rightarrow>
                if font_renders T colour
                then (Inr (), output_lines [''Enjoy your new colour!'']
                                (T\<lparr>text_colour := colour\<rparr>))
                else (Inr (), output_lines [''I am not familiar with that colour code.''] T))
         else (Inr (), T))
      else if startswith cmd ''freeze '' then
        (case py_int 10 (split_space cmd ! 1) of
           Inl e \<Rightarrow> (Inr (), output_lines [''Invalid time''] T)
         | Inr t \<Rightarrow> (Inr (), freeze t T))
      else if cmd \<noteq> [] then
        (Inr (), output_lines [''Unknown command '' @ [CHR 0x27] @ cmd @ [CHR 0x27] @ ''.''] T)
      else (Inr (), T))"

section \<open>The hex editor (programs/hexedit.py)\<close>

datatype States = QUERY_ROW | ENTER_COL | ENTER_VAL | FINISHED

text \<open>
  The rows of the two tables are Python list objects, and the claims depend on which of
  them are shared, so the editor carries a store: \<open>heap\<close> holds the row objects, an
  address is a position in it, and \<open>start_data\<close> and \<open>end_data\<close> are the two outer lists
  of addresses. \<open>failure_prefix\<close> is an attribute inherited from
  \<^verbatim>\<open>program.TerminalProgram\<close>, whose source is not among the files at hand; it is kept
  as a field. \<open>terminal\<close> is what the program writes of its terminal.
\<close>

record HexEditor =
  terminal :: Screen
  failure_prefix :: string
  completed_flag :: bool
  row :: int
  col :: int
  state :: States
  heap :: "int list list"
  start_data :: "nat list"
  end_data :: "nat list"

definition FREEZE_TIME :: int where
  "FREEZE_TIME = 5 * 1000"

definition HexEditor_init :: "Screen \<Rightarrow> string \<Rightarrow> HexEditor" where
  "HexEditor_init T prefix =
     \<lparr>terminal = T, failure_prefix = prefix, completed_flag = False, row = 0, col = 0,
      state = QUERY_ROW, heap = [], start_data = [], end_data = []\<rparr>"

text \<open>The tables as values: every address followed into the store.\<close>

definition start_table :: "HexEditor \<Rightarrow> int list list" where
  "start_table s = map (\<lambda>a. heap s ! a) (start_data s)"

definition end_table :: "HexEditor \<Rightarrow> int list list" where
  "end_table s = map (\<lambda>a. heap s ! a) (end_data s)"

text \<open>
  What \<^verbatim>\<open>_generate_data\<close> can return: \<^verbatim>\<open>randrange(3, 5)\<close> rows of six values, each from
  \<^verbatim>\<open>randrange(0x10)\<close>. The random choice itself is an argument of \<open>start\<close>.
\<close>

definition generated :: "int list list \<Rightarrow> bool" where
  "generated rows =
     ((length rows = 3 \<or> length rows = 4)
      \<and> list_all (\<lambda>r. length r = 6 \<and> list_all (\<lambda>v. 0 \<le> v \<and> v < 16) r) rows)"

definition output_data :: "HexEditor \<Rightarrow> (error + unit) \<times> HexEditor" where
  "output_data s =
     (case start_table s of
        [] \<Rightarrow> (Inl IndexError, s)
      | first # _ \<Rightarrow>
          let col_count = length first;
              T1 = output_lines ([[]] @
                     [replicate 2 CHR '' '' @ '' | '' @
                      join ''  '' (map (\<lambda>i. format_int 4 (int i)) [0..<col_count])] @
                     [replicate (5 + 6 * col_count) CHR ''-'']) (terminal s);
              T2 = output_lines (map (\<lambda>(idx, r). format_int 2 (int idx) @ '' | '' @
                                  join ''  '' (map format_hex r))
                             (enumerate 0 (start_table s)) @ [[]]) T1
          in (Inr (), s\<lparr>terminal := T2\<rparr>))"

text \<open>
  \<^verbatim>\<open>start\<close>, given the table that \<^verbatim>\<open>_generate_data\<close> draws. The fresh rows become the
  objects of the store (the rows of an earlier run are no longer referenced by
  anything), and \<^verbatim>\<open>list(self._start_data)\<close> builds a new outer list holding the same
  addresses.
\<close>

definition start :: "int list list \<Rightarrow> HexEditor \<Rightarrow> (error + unit) \<times> HexEditor" where
  "start rows s =
     (let s1 = s\<lparr>row := 0, col := 0, state := QUERY_ROW\<rparr>;
          s2 = s1\<lparr>heap := rows, start_data := [0..<length rows]\<rparr>;
          s3 = s2\<lparr>end_data := start_data s2\<rparr>
      in output_data s3)"

definition completed :: "HexEditor \<Rightarrow> bool" where
  "completed s = completed_flag s"

definition exited :: "HexEditor \<Rightarrow> bool" where
  "exited s = (state s = FINISHED)"

subsection \<open>The correctness check (lines 150-215)\<close>

text \<open>The local variables the loop carries from one row to the next.\<close>

record Vars =
  edited_previous :: bool
  edits :: int
  edited_idx :: int
  edited_old :: int
  edited_new :: int

text \<open>
  The outcome of the rule part of the loop body (lines 156-199): the function has
  returned False, or the body goes on with \<open>expect_edit\<close> set.
\<close>

datatype verdict = ReturnFalse | ExpectEdit bool

text \<open>\<^verbatim>\<open>if endl[k] != v: return False\<close>, with \<open>expect_edit\<close> still True otherwise.\<close>

definition require :: "int list \<Rightarrow> int \<Rightarrow> int \<Rightarrow> error + verdict" where
  "require endl k v =
     (case getitem endl k of
        Inl e \<Rightarrow> Inl e
      | Inr x \<Rightarrow> Inr (if x \<noteq> v then ReturnFalse else ExpectEdit True))"

definition odds :: "int list \<Rightarrow> (nat \<times> int) list" where
  "odds startl = filter (\<lambda>(i, v). i mod 2 = 1) (enumerate 0 startl)"

definition row_rule :: "nat \<Rightarrow> nat \<Rightarrow> Vars \<Rightarrow> int list \<Rightarrow> int list \<Rightarrow> error + verdict" where
  "row_rule n idx v startl endl =
     (if idx = 0 \<or> \<not> edited_previous v then
        (case getitem startl 0 of
           Inl e \<Rightarrow> Inl e
         | Inr first \<Rightarrow>
             if first < 7 then require endl first 0
             else if count_list startl 0 > 0 then
               (case index_of startl 0 of Inl e \<Rightarrow> Inl e | Inr k \<Rightarrow> require endl k 15)
             else if length (odds startl) > 3 then
               (let k = int (fst (hd (odds startl))) in
                case getitem endl k of
                  Inl e \<Rightarrow> Inl e
                | Inr x \<Rightarrow>
                    (case getitem startl k of
                       Inl e \<Rightarrow> Inl e
                     | Inr y \<Rightarrow> Inr (if x \<noteq> y - 1 then ReturnFalse else ExpectEdit True)))
             else Inr (ExpectEdit False))
      else if idx + 1 = n then
        (case getitem endl (- 1) of
           Inl e \<Rightarrow> Inl e
         | Inr x \<Rightarrow>
             Inr (if x \<noteq> edits v \<or> butlast endl \<noteq> butlast startl then ReturnFalse
                  else ExpectEdit True))
      else
        (case getitem startl (- 1) of
           Inl e \<Rightarrow> Inl e
         | Inr final \<Rightarrow>
             if final < 7 then require endl final (edited_old v)
             else if count_list startl 15 \<noteq> 0 then
               (case index_of startl 15 of
                  Inl e \<Rightarrow> Inl e
                | Inr k \<Rightarrow> require endl k (edited_idx v))
             else if count_list startl (edited_new v) \<noteq> 0 then
               (case index_of startl (edited_new v) of
                  Inl e \<Rightarrow> Inl e
                | Inr k \<Rightarrow> require endl k 0)
             else Inr (ExpectEdit False)))"

text \<open>
  \<^verbatim>\<open>[i for i, (s, e) in enumerate(zip(startl, endl)) if s != e]\<close>: the positions where the
  two rows differ.
\<close>

definition changed_at :: "int list \<Rightarrow> int list \<Rightarrow> int list" where
  "changed_at startl endl =
     map (\<lambda>(i, p). int i) (filter (\<lambda>(i, (x, y)). x \<noteq> y) (enumerate 0 (zip startl endl)))"

text \<open>
  One pass of the loop body (lines 156-213). \<open>None\<close> is \<^verbatim>\<open>return False\<close>; otherwise the
  variables for the next row.
\<close>

definition row_step :: "nat \<Rightarrow> nat \<Rightarrow> Vars \<Rightarrow> int list \<Rightarrow> int list \<Rightarrow> error + Vars option" where
  "row_step n idx v startl endl =
     (case row_rule n idx v startl endl of
        Inl e \<Rightarrow> Inl e
      | Inr ReturnFalse \<Rightarrow> Inr None
      | Inr (ExpectEdit expect_edit) \<Rightarrow>
          if startl \<noteq> endl then
            (case getitem (changed_at startl endl) 0 of
               Inl e \<Rightarrow> Inl e
             | Inr k \<Rightarrow>
                 (case getitem startl k of
                    Inl e \<Rightarrow> Inl e
                  | Inr old \<Rightarrow>
                      (case getitem endl k of
                         Inl e \<Rightarrow> Inl e
                       | Inr new \<Rightarrow>
                           if \<not> expect_edit then Inr None
                           else Inr (Some \<lparr>edited_previous = True, edits = edits v + 1,
                                           edited_idx = k, edited_old = old,
                                           edited_new = new\<rparr>))))
          else Inr (Some (v\<lparr>edited_previous := False\<rparr>)))"

text \<open>
  The \<^verbatim>\<open>for\<close> loop over \<^verbatim>\<open>enumerate(zip(self._start_data, self._end_data))\<close>;
  \<open>n\<close> is \<^verbatim>\<open>len(self._start_data)\<close>.
\<close>

fun data_correct_loop :: "nat \<Rightarrow> nat \<Rightarrow> Vars \<Rightarrow> (int list \<times> int list) list \<Rightarrow> error + bool" where
  "data_correct_loop n idx v [] = Inr True"
| "data_correct_loop n idx v ((startl, endl) # rest) =
     (case row_step n idx v startl endl of
        Inl e \<Rightarrow> Inl e
      | Inr None \<Rightarrow> Inr False
      | Inr (Some v') \<Rightarrow> data_correct_loop n (Suc idx) v' rest)"

text \<open>
  \<^verbatim>\<open>_data_correct\<close>. Line 153 unpacks the three-item list \<^verbatim>\<open>[0, 0, 0]\<close> into the four
  names \<^verbatim>\<open>edits, edited_idx, edited_old, edited_new\<close> before the loop is entered.
\<close>

definition data_correct :: "HexEditor \<Rightarrow> error + bool" where
  "data_correct s =
     (case unpack4 [0, 0, 0] of
        Inl e \<Rightarrow> Inl e
      | Inr (a, b, c, d) \<Rightarrow>
          data_correct_loop (length (start_data s)) 0
            \<lparr>edited_previous = False, edits = a, edited_idx = b, edited_old = c,
             edited_new = d\<rparr>
            (zip (start_table s) (end_table s)))"

subsection \<open>Input handling (lines 77-124)\<close>

definition check_finished :: "HexEditor \<Rightarrow> (error + unit) \<times> HexEditor" where
  "check_finished s =
     (if row s = int (length (start_data s)) then
        (let s1 = s\<lparr>state := FINISHED\<rparr> in
         case data_correct s1 of
           Inl e \<Rightarrow> (Inl e, s1)
         | Inr True \<Rightarrow> (Inr (), s1\<lparr>completed_flag := True\<rparr>)
         | Inr False \<Rightarrow>
             (Inr (), s1\<lparr>terminal :=
                freeze FREEZE_TIME
                  (output_lines [failure_prefix s1 @ ''corruption detected in system file, repairing!'']
                     (terminal s1))\<rparr>))
      else (Inr (), s))"

text \<open>
  \<^verbatim>\<open>self._end_data[self._row][self._col] = v\<close>: the row object is looked up through the
  edited table's outer list and updated in place in the store.
\<close>

definition set_cell :: "int \<Rightarrow> HexEditor \<Rightarrow> error + HexEditor" where
  "set_cell v s =
     (case getitem (end_data s) (row s) of
        Inl e \<Rightarrow> Inl e
      | Inr a \<Rightarrow>
          let r = heap s ! a; n = int (length r); c = col s in
          if 0 \<le> c \<and> c < n then Inr (s\<lparr>heap := (heap s)[a := r[nat c := v]]\<rparr>)
          else if c < 0 \<and> - n \<le> c then Inr (s\<lparr>heap := (heap s)[a := r[nat (n + c) := v]]\<rparr>)
          else Inl IndexError)"

text \<open>
  \<^verbatim>\<open>text_input\<close> returns the outcome together with the state the call leaves behind, so
  that what a raise leaves changed stays visible.
\<close>

definition text_input :: "string \<Rightarrow> HexEditor \<Rightarrow> (error + unit) \<times> HexEditor" where
  "text_input raw s =
     (let line = lower (lstrip raw) in
      case state s of
        QUERY_ROW \<Rightarrow>
          if startswith line ''y'' then check_finished (s\<lparr>state := ENTER_COL\<rparr>)
          else check_finished (s\<lparr>row := row s + 1\<rparr>)
      | ENTER_COL \<Rightarrow>
          (case py_int 10 line of
             Inl e \<Rightarrow> (Inl (BadInput ''Not a number''), s)
           | Inr c \<Rightarrow>
               let s1 = s\<lparr>col := c\<rparr> in
               if col s1 < 0 then (Inl (BadInput ''Column out of range''), s1)
               else (case getitem (start_table s1) 0 of
                       Inl e \<Rightarrow> (Inl e, s1)
                     | Inr first \<Rightarrow>
                         if col s1 \<ge> int (length first)
                         then (Inl (BadInput ''Column out of range''), s1)
                         else check_finished (s1\<lparr>state := ENTER_VAL\<rparr>)))
      | ENTER_VAL \<Rightarrow>
          if line = [] then check_finished (s\<lparr>state := QUERY_ROW\<rparr>)
          else (case py_int 16 line of
                  Inl e \<Rightarrow> (Inl (BadInput ''Not a number''), s)
                | Inr v \<Rightarrow>
                    (case set_cell v s of
                       Inl e \<Rightarrow> (Inl e, s)
                     | Inr s1 \<Rightarrow>
                         check_finished (s1\<lparr>row := row s1 + 1, state := QUERY_ROW\<rparr>)))
      | FINISHED \<Rightarrow> check_finished s)"

text \<open>
  A session: the lines handed to \<^verbatim>\<open>text_input\<close> one after the other, as
  \<^verbatim>\<open>Terminal._complete_input\<close> does. It catches \<open>BadInput\<close> (and prints the reason) and
  goes on; any other exception is not caught and ends the run.
\<close>

fun text_inputs :: "string list \<Rightarrow> HexEditor \<Rightarrow> (error + unit) \<times> HexEditor" where
  "text_inputs [] s = (Inr (), s)"
| "text_inputs (l # ls) s =
     (case text_input l s of
        (Inl (BadInput m), s') \<Rightarrow>
          text_inputs ls (s'\<lparr>terminal := output_lines [''Error: '' @ m] (terminal s')\<rparr>)
      | (Inl e, s') \<Rightarrow> (Inl e, s')
      | (Inr u, s') \<Rightarrow> text_inputs ls s')"

section \<open>Notions the claims speak of\<close>

text \<open>
  A row falls into the "no edit expected" branch of the first-row rules (lines 159-176):
  its first cell is not below 7, it holds no zero, and it has no more than three
  odd-indexed cells.
\<close>

definition no_edit_expected :: "int list \<Rightarrow> bool" where
  "no_edit_expected startl =
     (startl \<noteq> [] \<and> \<not> hd startl < 7 \<and> \<not> count_list startl 0 > 0 \<and> \<not> length (odds startl) > 3)"

text \<open>
  A row falls into rule (d) (first cell \<open>c\<close> below 7) and already holds a zero at column
  \<open>c\<close>, so that the rule is met without an edit.
\<close>

definition rule_d_already_met :: "int list \<Rightarrow> bool" where
  "rule_d_already_met startl = (startl \<noteq> [] \<and> hd startl < 7 \<and> getitem startl (hd startl) = Inr 0)"

text \<open>A row of the pair of tables was edited.\<close>

definition edited :: "int list \<times> int list \<Rightarrow> bool" where
  "edited r = (fst r \<noteq> snd r)"

text \<open>
  The programs of the prerequisites \<open>deps\<close> that are registered and do not report
  completed, in the order of \<open>deps\<close>.
\<close>

definition unmet :: "(string \<times> Program) list \<Rightarrow> string list \<Rightarrow> Program list" where
  "unmet progs deps = filter (\<lambda>p. \<not> prog_completed p) (List.map_filter (map_of progs) deps)"

section \<open>Concrete inputs for the worked examples\<close>

text \<open>A countdown of forty seconds with the warning mark at thirty, and a run of frames.\<close>

definition demo_run :: "int list" where
  "demo_run = [9000, 1000, 500, 4000, 11000, 9000, 2000, 1000, 1000, 1000]"

text \<open>A terminal with two commands in its history and a half-typed line.\<close>

definition nav_demo :: Terminal where
  "nav_demo =
     \<lparr>buf = [], timer_time = 0, freeze_start = None, freeze_time = None,
      current_line = Some ''dra'',
      cmd_history = \<lparr>history = [''ls'', ''door''], maxlen = 50, pos = - 1, saved_line = None\<rparr>,
      programs = [], current_program = None, depends = [], text_colour = [20, 200, 20],
      font_renders = (\<lambda>c. True)\<rparr>"

text \<open>
  An editor started on a table whose rows all fall into the "no edit expected" branch
  (first cell at least 7, no zero, three odd-indexed cells).
\<close>

definition screen0 :: Screen where
  "screen0 = \<lparr>buf = [], timer_time = 0, freeze_start = None, freeze_time = None\<rparr>"

definition table_plain :: "int list list" where
  "table_plain = [[7, 1, 1, 1, 1, 8], [9, 2, 3, 4, 5, 9], [8, 1, 2, 3, 4, 10]]"

definition editor0 :: HexEditor where
  "editor0 = snd (start table_plain (HexEditor_init screen0 ''<c r>''))"

text \<open>A table whose first row is a rule (d) row (first cell 1) with cell 1 already zero.\<close>

definition table_rule_d :: "int list list" where
  "table_rule_d = [[1, 0, 9, 9, 9, 9], [9, 2, 3, 4, 5, 9], [8, 1, 2, 3, 4, 10]]"

text \<open>
  A reference table and an edited table that differ in one cell of the first row (the
  zero at column 1 changed to 0xf, as rule (e) asks); the second and third rows are
  untouched.
\<close>

definition table_ref :: "int list list" where
  "table_ref = [[7, 0, 1, 1, 1, 8], [9, 2, 3, 4, 5, 9], [8, 1, 2, 3, 4, 10]]"

definition table_edited :: "int list list" where
  "table_edited = [[7, 15, 1, 1, 1, 8], [9, 2, 3, 4, 5, 9], [8, 1, 2, 3, 4, 10]]"

text \<open>The same pair with the first two rows edited as the rules ask and a last row.\<close>

definition table_ref2 :: "int list list" where
  "table_ref2 = [[7, 0, 1, 1, 1, 8], [9, 2, 3, 4, 5, 3], [8, 1, 2, 3, 4, 10]]"

definition table_edited2 :: "int list list" where
  "table_edited2 = [[7, 15, 1, 1, 1, 8], [9, 2, 3, 0, 5, 3], [8, 1, 2, 3, 4, 2]]"

definition zero_vars :: Vars where
  "zero_vars = \<lparr>edited_previous = False, edits = 0, edited_idx = 0, edited_old = 0, edited_new = 0\<rparr>"

text \<open>
  A terminal with the commands \<^verbatim>\<open>door\<close> and \<^verbatim>\<open>lock\<close>, where \<^verbatim>\<open>door\<close> needs \<^verbatim>\<open>lock\<close>; and the
  same terminal with a second prerequisite that no command is registered under.
\<close>

definition door_terminal :: Terminal where
  "door_terminal =
     \<lparr>buf = [], timer_time = 0, freeze_start = None, freeze_time = None,
      current_line = Some [],
      cmd_history = CommandHistory_init 50,
      programs = [(''door'', \<lparr>prog_completed = False, security_type = ''door lock'',
                             help_text = ''Open the door.'', start_calls = 0\<rparr>),
                  (''lock'', \<lparr>prog_completed = False, security_type = ''software lock'',
                             help_text = ''Modify raw software data.'', start_calls = 0\<rparr>)],
      current_program = None, depends = [(''door'', [''lock''])],
      text_colour = [20, 200, 20], font_renders = (\<lambda>c. True)\<rparr>"

definition ghost_terminal :: Terminal where
  "ghost_terminal = door_terminal\<lparr>depends := [(''door'', [''lock'', ''ghost''])]\<rparr>"

text \<open>Sessions on \<open>editor0\<close>: every row declined; one cell edited; an edit and two declines.\<close>

definition session_plain :: "(error + unit) \<times> HexEditor" where
  "session_plain = text_inputs [''n'', ''n'', ''n''] editor0"

definition session_edit :: "(error + unit) \<times> HexEditor" where
  "session_edit = text_inputs [''y'', ''0'', ''f''] editor0"

definition session_unexpected :: "(error + unit) \<times> HexEditor" where
  "session_unexpected = text_inputs [''y'', ''0'', ''8'', ''n'', ''n''] editor0"

text \<open>\<open>editor0\<close> after the answer "y" to the first row query: waiting for a column.\<close>

definition editor_at_col :: HexEditor where
  "editor_at_col = snd (text_input ''y'' editor0)"

text \<open>
  An editor at the end of a session whose two tables are separate objects holding
  \<open>table_ref\<close> and \<open>table_edited\<close>.
\<close>

definition editor_pair :: HexEditor where
  "editor_pair =
     \<lparr>terminal = screen0, failure_prefix = ''<c r>'', completed_flag = False, row = 3, col = 1,
      state = FINISHED, heap = table_ref @ table_edited, start_data = [0, 1, 2],
      end_data = [3, 4, 5]\<rparr>"

text \<open>A generated table whose first row starts with 6.\<close>

definition table_six :: "int list list" where
  "table_six = [[6, 1, 1, 1, 1, 8], [9, 2, 3, 4, 5, 9], [8, 1, 2, 3, 4, 10]]"

text \<open>\<open>table_plain\<close> with the first cell of the first row changed from 7 to 8.\<close>

definition table_plain_edited :: "int list list" where
  "table_plain_edited = [[8, 1, 1, 1, 1, 8], [9, 2, 3, 4, 5, 9], [8, 1, 2, 3, 4, 10]]"

text \<open>The invariant of a history navigation that began on the line \<open>l0\<close>.\<close>


definition nav_inv :: "string option \<Rightarrow> string list \<Rightarrow> Terminal \<Rightarrow> bool" where
  "nav_inv l0 hs T =
     (history (cmd_history T) = hs \<and> - 1 \<le> pos (cmd_history T)
      \<and> pos (cmd_history T) < int (length hs)
      \<and> (if pos (cmd_history T) = - 1 then current_line T = l0
          else saved_line (cmd_history T) = l0))"

section \<open>Facts about the model shared by the proofs below\<close>

lemma data_correct_raises: "data_correct s = Inl ValueError"
  by (simp add: data_correct_def unpack4_def)

lemma check_finished_cases:
  "check_finished s =
     (if row s = int (length (start_data s)) then (Inl ValueError, s\<lparr>state := FINISHED\<rparr>)
      else (Inr (), s))"
  by (simp add: check_finished_def data_correct_raises Let_def)

lemma check_finished_no_bad_input: "fst (check_finished s) \<noteq> Inl (BadInput m)"
  by (simp add: check_finished_cases)

lemma getitem_error: "getitem xs i = Inl e \<Longrightarrow> e = IndexError"
  by (simp add: getitem_def split: if_splits)

lemma set_cell_error: "set_cell v s = Inl e \<Longrightarrow> e = IndexError"
  by (auto simp: set_cell_def Let_def split: sum.splits if_splits dest: getitem_error)


lemma getitem_nat: "i < length xs \<Longrightarrow> getitem xs (int i) = Inr (xs ! i)"
  by (simp add: getitem_def)

lemma index_from_found:
  "count_list xs x > 0 \<Longrightarrow> \<exists>k < length xs. index_from i xs x = Inr (int (i + k)) \<and> xs ! k = x"
proof (induction xs arbitrary: i)
  case Nil
  then show ?case by simp
next
  case (Cons y ys)
  show ?case
  proof (cases "y = x")
    case True
    then show ?thesis by auto
  next
    case False
    with Cons.prems have "count_list ys x > 0" by simp
    from Cons.IH [OF this, of "Suc i"] obtain k
      where "k < length ys" "index_from (Suc i) ys x = Inr (int (Suc i + k))" "ys ! k = x"
      by blast
    with False show ?thesis by (intro exI [of _ "Suc k"]) simp
  qed
qed

lemma index_of_found:
  "count_list xs x > 0 \<Longrightarrow> \<exists>k. index_of xs x = Inr k \<and> getitem xs k = Inr x"
  using index_from_found [of xs x 0] by (auto simp: index_of_def getitem_def)

lemma odds_index: "p \<in> set (odds xs) \<Longrightarrow> fst p < length xs \<and> snd p = xs ! fst p"
  by (auto simp: odds_def in_set_enumerate_eq)

lemma odds_hd: "odds xs \<noteq> [] \<Longrightarrow> getitem xs (int (fst (hd (odds xs)))) = Inr (xs ! fst (hd (odds xs)))"
  using odds_index [of "hd (odds xs)" xs] by (simp add: getitem_nat)

lemma row_rule_unedited:
  assumes "idx = 0 \<or> \<not> edited_previous v"
  shows "row_rule n idx v r r =
           (if r = [] then Inl IndexError
            else if hd r < 7 then require r (hd r) 0
            else if count_list r 0 > 0 then Inr ReturnFalse
            else if length (odds r) > 3 then Inr ReturnFalse
            else Inr (ExpectEdit False))"
proof (cases r)
  case Nil
  with assms show ?thesis by (auto simp: row_rule_def getitem_def)
next
  case (Cons a as)
  have g0: "getitem r 0 = Inr (hd r)" using Cons by (simp add: getitem_def)
  show ?thesis
  proof (cases "hd r < 7")
    case True
    with assms g0 Cons show ?thesis by (auto simp: row_rule_def)
  next
    case ge: False
    show ?thesis
    proof (cases "count_list r 0 > 0")
      case True
      from index_of_found [OF True] obtain k where "index_of r 0 = Inr k" "getitem r k = Inr 0"
        by blast
      with assms g0 ge True Cons show ?thesis by (auto simp: row_rule_def require_def)
    next
      case nz: False
      show ?thesis
      proof (cases "length (odds r) > 3")
        case True
        then have "odds r \<noteq> []" by auto
        from odds_hd [OF this] assms g0 ge nz True Cons show ?thesis
          by (auto simp: row_rule_def Let_def)
      next
        case False
        with assms g0 ge nz Cons show ?thesis by (auto simp: row_rule_def)
      qed
    qed
  qed
qed

lemma row_step_unedited:
  assumes "idx = 0 \<or> \<not> edited_previous v"
  shows "row_step n idx v r r =
           (if no_edit_expected r \<or> rule_d_already_met r
            then Inr (Some (v\<lparr>edited_previous := False\<rparr>))
            else if r \<noteq> [] \<and> hd r < 7 \<and> getitem r (hd r) = Inl IndexError then Inl IndexError
            else if r = [] then Inl IndexError
            else Inr None)"
  using assms
  by (auto simp: row_step_def row_rule_unedited no_edit_expected_def rule_d_already_met_def
      require_def split: sum.splits dest: getitem_error)

lemma loop_unedited:
  "idx = 0 \<or> \<not> edited_previous v \<Longrightarrow>
   data_correct_loop n idx v (zip tbl tbl) = Inr True
     \<longleftrightarrow> list_all (\<lambda>r. no_edit_expected r \<or> rule_d_already_met r) tbl"
proof (induction tbl arbitrary: idx v)
  case Nil
  show ?case by simp
next
  case (Cons r tbl)
  show ?case
  proof (cases "no_edit_expected r \<or> rule_d_already_met r")
    case True
    with Cons.prems have "row_step n idx v r r = Inr (Some (v\<lparr>edited_previous := False\<rparr>))"
      by (simp add: row_step_unedited)
    with True Cons.IH [of "Suc idx" "v\<lparr>edited_previous := False\<rparr>"] show ?thesis by simp
  next
    case False
    with Cons.prems have "row_step n idx v r r = Inl IndexError \<or> row_step n idx v r r = Inr None"
      by (simp add: row_step_unedited)
    with False show ?thesis by auto
  qed
qed


lemma row_step_Some:
  "row_step n idx v startl endl = Inr (Some v') \<Longrightarrow>
   edited_previous v' = (startl \<noteq> endl)
   \<and> edits v' = edits v + (if startl \<noteq> endl then 1 else 0)"
  by (auto simp: row_step_def split: sum.splits verdict.splits if_splits)

lemma row_step_last:
  assumes "row_step n idx v startl endl = Inr (Some v')" "idx \<noteq> 0" "edited_previous v"
    "idx + 1 = n"
  shows "getitem endl (- 1) = Inr (edits v) \<and> butlast endl = butlast startl"
  using assms
  by (auto simp: row_step_def row_rule_def split: sum.splits verdict.splits if_splits)

lemma loop_last_row:
  "data_correct_loop n idx v rows = Inr True \<Longrightarrow> n = idx + length rows \<Longrightarrow> rows \<noteq> [] \<Longrightarrow>
   (if length rows = 1 then idx \<noteq> 0 \<and> edited_previous v
    else edited (rows ! (length rows - 2))) \<Longrightarrow>
   getitem (snd (last rows)) (- 1) = Inr (edits v + int (length (filter edited (butlast rows))))
   \<and> butlast (snd (last rows)) = butlast (fst (last rows))"
proof (induction rows arbitrary: idx v)
  case Nil
  then show ?case by simp
next
  case (Cons r rows)
  obtain startl endl where r: "r = (startl, endl)" by (cases r)
  from Cons.prems(1) r obtain v' where step: "row_step n idx v startl endl = Inr (Some v')"
    and rest: "data_correct_loop n (Suc idx) v' rows = Inr True"
    by (auto split: sum.splits option.splits)
  show ?case
  proof (cases rows)
    case Nil
    with Cons.prems have "idx \<noteq> 0" "edited_previous v" "idx + 1 = n" by auto
    from row_step_last [OF step this] Nil r show ?thesis by simp
  next
    case (Cons r' rows')
    from row_step_Some [OF step] have v': "edited_previous v' = (startl \<noteq> endl)"
      "edits v' = edits v + (if startl \<noteq> endl then 1 else 0)" by auto
    have n: "n = Suc idx + length rows" using Cons.prems(2) by simp
    have ne: "rows \<noteq> []" using Cons by simp
    have prev: "if length rows = 1 then Suc idx \<noteq> 0 \<and> edited_previous v'
                else edited (rows ! (length rows - 2))"
    proof (cases "length rows = 1")
      case True
      with Cons.prems(4) r v' show ?thesis by (simp add: edited_def)
    next
      case False
      with Cons Cons.prems(4) show ?thesis by (cases rows') auto
    qed
    from Cons.IH [OF rest n ne prev] v' r Cons show ?thesis
      by (simp add: edited_def)
  qed
qed


lemma loop_append:
  "data_correct_loop n idx v (pre @ post) = Inr True \<Longrightarrow>
   \<exists>v'. data_correct_loop n (idx + length pre) v' post = Inr True"
proof (induction pre arbitrary: idx v)
  case Nil
  then show ?case by auto
next
  case (Cons r pre)
  obtain startl endl where r: "r = (startl, endl)" by (cases r)
  from Cons.prems r obtain v1 where "data_correct_loop n (Suc idx) v1 (pre @ post) = Inr True"
    by (auto split: sum.splits option.splits)
  from Cons.IH [OF this] show ?case by simp
qed

lemma row_step_unexpected:
  "row_rule n idx v startl endl = Inr (ExpectEdit False) \<Longrightarrow> startl \<noteq> endl \<Longrightarrow>
   row_step n idx v startl endl \<noteq> Inr (Some v')"
  by (auto simp: row_step_def split: sum.splits)

lemma accepted_edits_were_expected:
  assumes "data_correct_loop n idx v rows = Inr True" "i < length rows" "edited (rows ! i)"
  shows "\<exists>v'. row_rule n (idx + i) v' (fst (rows ! i)) (snd (rows ! i)) = Inr (ExpectEdit True)"
proof -
  obtain startl endl where r: "rows ! i = (startl, endl)" by (cases "rows ! i")
  have "rows = take i rows @ (startl, endl) # drop (Suc i) rows"
    using assms(2) r by (metis id_take_nth_drop)
  with assms(1) have "data_correct_loop n idx v (take i rows @ (startl, endl) # drop (Suc i) rows) = Inr True"
    by simp
  from loop_append [OF this] assms(2) obtain v'
    where "data_correct_loop n (idx + i) v' ((startl, endl) # drop (Suc i) rows) = Inr True"
    by auto
  then obtain v2 where s: "row_step n (idx + i) v' startl endl = Inr (Some v2)"
    by (auto split: sum.splits option.splits)
  from assms(3) r have ne: "startl \<noteq> endl" by (simp add: edited_def)
  from s ne have "row_rule n (idx + i) v' startl endl = Inr (ExpectEdit True)"
    by (auto simp: row_step_def split: sum.splits verdict.splits if_splits bool.splits)
  with r show ?thesis by auto
qed

lemma blocked_on_eq:
  "blocked_on progs deps =
     (if set deps \<subseteq> fst ` set progs then Inr (unmet progs deps) else Inl KeyError)"
proof (induction deps)
  case Nil
  show ?case by (simp add: unmet_def)
next
  case (Cons c cs)
  show ?case
  proof (cases "map_of progs c")
    case None
    then have "c \<notin> fst ` set progs" by (simp add: map_of_eq_None_iff)
    with None show ?thesis by (simp add: lookup_def)
  next
    case (Some p)
    then have "c \<in> fst ` set progs" by (force dest: map_of_SomeD)
    with Some Cons show ?thesis
      by (auto simp: lookup_def unmet_def)
  qed
qed

lemma unmet_nonempty:
  assumes "c \<in> set deps" "map_of progs c = Some q" "\<not> prog_completed q"
  shows "unmet progs deps \<noteq> []"
proof -
  have "q \<in> set (List.map_filter (map_of progs) deps)"
    using assms(1,2) by (force simp: map_filter_def)
  with assms(3) show ?thesis by (auto simp: unmet_def filter_empty_conv)
qed

section \<open>The countdown timer: flash windows\<close>


lemma strip_flash_times_length: "length (strip_flash_times secs q) \<le> length q"
  by (induction q) auto

lemma strip_flash_times_head:
  "q \<noteq> [] \<Longrightarrow> secs \<le> hd q \<Longrightarrow> length (strip_flash_times secs q) < length q"
  using strip_flash_times_length [of secs "tl q"] by (cases q) auto

lemma strip_flash_times_drop:
  "strip_flash_times secs q = drop (length q - length (strip_flash_times secs q)) q"
proof (induction q)
  case Nil
  show ?case by simp
next
  case (Cons th ths)
  have "length (strip_flash_times secs ths) \<le> length ths"
    by (rule strip_flash_times_length)
  then show ?case using Cons by (simp add: Suc_diff_le)
qed

lemma update_flash_started:
  "update_flash ms t = (True, t') \<Longrightarrow> length (flash_times t') < length (flash_times t)"
  by (auto simp: update_flash_def Let_def strip_flash_times_head split: if_splits option.splits)

lemma update_flash_idle:
  "update_flash ms t = (False, t') \<Longrightarrow> flash_times t' = flash_times t"
  by (auto simp: update_flash_def Let_def split: if_splits option.splits)

lemma update_flash_length:
  "update_flash ms t = (b, t') \<Longrightarrow> length (flash_times t') \<le> length (flash_times t)"
  using update_flash_started [of ms t t'] update_flash_idle [of ms t t']
  by (cases b) auto

lemma flash_log_bounds:
  "i \<in> set (flash_log used t mss) \<Longrightarrow> used \<le> i \<and> i < used + length (flash_times t)"
proof (induction mss arbitrary: used t)
  case Nil
  then show ?case by simp
next
  case (Cons ms mss)
  obtain b t' where u: "update_flash ms t = (b, t')" by (cases "update_flash ms t")
  let ?used' = "used + (length (flash_times t) - length (flash_times t'))"
  from u have le: "length (flash_times t') \<le> length (flash_times t)"
    by (rule update_flash_length)
  from Cons.prems u consider "b" "i = used" | "i \<in> set (flash_log ?used' t' mss)"
    by (auto split: if_splits)
  then show ?case
  proof cases
    case 1
    with u have "length (flash_times t') < length (flash_times t)"
      by (simp add: update_flash_started)
    with 1 show ?thesis by (cases "flash_times t") auto
  next
    case 2
    from Cons.IH [OF 2] le show ?thesis by arith
  qed
qed

lemma flash_log_sorted: "sorted_wrt (<) (flash_log used t mss)"
proof (induction mss arbitrary: used t)
  case Nil
  show ?case by simp
next
  case (Cons ms mss)
  obtain b t' where u: "update_flash ms t = (b, t')" by (cases "update_flash ms t")
  let ?used' = "used + (length (flash_times t) - length (flash_times t'))"
  show ?case
  proof (cases b)
    case True
    with u have lt: "length (flash_times t') < length (flash_times t)"
      by (simp add: update_flash_started)
    have "\<forall>i\<in>set (flash_log ?used' t' mss). used < i"
      using flash_log_bounds [of _ ?used' t' mss] lt by fastforce
    with True u Cons.IH [of ?used' t'] show ?thesis by simp
  next
    case False
    with u Cons.IH [of ?used' t'] show ?thesis by simp
  qed
qed

text \<open>
  Claim C8. Over any run of \<^verbatim>\<open>update\<close> calls (whatever the elapsed times, so in particular
  nonnegative ones) the positions of the thresholds that started a flash window are
  strictly increasing: no threshold of the queue starts two windows, only thresholds of
  the queue start one, and a timer whose queue is exhausted never starts another.
\<close>

theorem each_threshold_flashes_once:
  "sorted_wrt (<) (flash_log 0 t mss) \<and> distinct (flash_log 0 t mss)
   \<and> (\<forall>i \<in> set (flash_log 0 t mss). i < length (flash_times t))
   \<and> (flash_times t = [] \<longrightarrow> flash_log 0 t mss = [])"
proof -
  have s: "sorted_wrt (<) (flash_log 0 t mss)" by (rule flash_log_sorted)
  then have d: "distinct (flash_log 0 t mss)" by (simp add: strict_sorted_iff)
  have b: "\<forall>i \<in> set (flash_log 0 t mss). i < length (flash_times t)"
    using flash_log_bounds [of _ 0 t mss] by auto
  from b have "flash_times t = [] \<longrightarrow> flash_log 0 t mss = []"
    by (cases "flash_log 0 t mss") auto
  with s d b show ?thesis by blast
qed


lemma demo_log: "flash_log 0 (CountdownTimer_init 40 30) demo_run = [0, 1, 2, 3]"
  by (simp add: demo_run_def CountdownTimer_init_def update_flash_def secs_left_def
      FLASH_TIME_def Let_def)

lemma demo_final: "flash_times (updates (CountdownTimer_init 40 30) demo_run) = []"
  by (simp add: demo_run_def CountdownTimer_init_def update_def update_flash_def secs_left_def
      FLASH_TIME_def Let_def)

theorem each_threshold_flashes_once_witness:
  "flash_log 0 (CountdownTimer_init 40 30) demo_run = [0, 1, 2, 3]
   \<and> distinct (flash_log 0 (CountdownTimer_init 40 30) demo_run)
   \<and> flash_times (updates (CountdownTimer_init 40 30) demo_run) = []
   \<and> flash_log 0 (updates (CountdownTimer_init 40 30) demo_run) [200, 100, 100] = []"
  using each_threshold_flashes_once [of "CountdownTimer_init 40 30" demo_run]
    each_threshold_flashes_once [of "updates (CountdownTimer_init 40 30) demo_run" "[200, 100, 100]"]
    demo_log demo_final
  by simp

section \<open>Command history navigation\<close>

lemma navigate_up_inv:
  assumes "nav_inv l0 hs T"
  shows "\<exists>T'. navigate True T = Inr T' \<and> nav_inv l0 hs T'"
  using assms
  by (auto simp: nav_inv_def navigate_def Let_def getitem_def get_current_line_def
      set_current_line_def split: if_splits)

lemma navigate_down_inv:
  assumes "nav_inv l0 hs T"
  shows "\<exists>T'. navigate False T = Inr T' \<and> nav_inv l0 hs T'
          \<and> pos (cmd_history T') = max (- 1) (pos (cmd_history T) - 1)"
  using assms
  by (auto simp: nav_inv_def navigate_def Let_def getitem_def get_current_line_def
      set_current_line_def split: if_splits)

lemma navigate_n_up_inv:
  "nav_inv l0 hs T \<Longrightarrow> \<exists>T'. navigate_n True k T = Inr T' \<and> nav_inv l0 hs T'"
proof (induction k arbitrary: T)
  case 0
  then show ?case by simp
next
  case (Suc k)
  from navigate_up_inv [OF Suc.prems] obtain T1
    where "navigate True T = Inr T1" "nav_inv l0 hs T1" by blast
  with Suc.IH [of T1] show ?case by simp
qed

lemma navigate_n_down_inv:
  "nav_inv l0 hs T \<Longrightarrow> int j \<le> pos (cmd_history T) + 1 \<Longrightarrow>
   \<exists>T'. navigate_n False j T = Inr T' \<and> nav_inv l0 hs T'
        \<and> pos (cmd_history T') = pos (cmd_history T) - int j"
proof (induction j arbitrary: T)
  case 0
  then show ?case by simp
next
  case (Suc j)
  from navigate_down_inv [OF Suc.prems(1)] obtain T1
    where 1: "navigate False T = Inr T1" "nav_inv l0 hs T1"
      "pos (cmd_history T1) = max (- 1) (pos (cmd_history T) - 1)" by blast
  from Suc.prems(2) 1(3) have p: "pos (cmd_history T1) = pos (cmd_history T) - 1" by simp
  with Suc.prems(2) have "int j \<le> pos (cmd_history T1) + 1" by simp
  from Suc.IH [OF 1(2) this] 1(1) p show ?case by auto
qed

text \<open>
  Claim C9. From a history whose cursor is at "not navigating", pressing Up any number of
  times never fails; pressing Down from there reaches "not navigating" again after
  exactly cursor + 1 presses (not before), and the input line is then the line that was
  there before the navigation began.
\<close>

theorem navigate_up_then_down_restores_line:
  assumes "pos (cmd_history T) = - 1"
  shows "\<exists>T1. navigate_n True k T = Inr T1
           \<and> (\<exists>T2. navigate_n False (nat (pos (cmd_history T1) + 1)) T1 = Inr T2
                  \<and> pos (cmd_history T2) = - 1 \<and> current_line T2 = current_line T)
           \<and> (\<forall>j < nat (pos (cmd_history T1) + 1).
                  \<exists>T2. navigate_n False j T1 = Inr T2 \<and> pos (cmd_history T2) \<noteq> - 1)"
proof -
  let ?hs = "history (cmd_history T)"
  have "nav_inv (current_line T) ?hs T"
    using assms by (simp add: nav_inv_def)
  from navigate_n_up_inv [OF this, of k] obtain T1
    where T1: "navigate_n True k T = Inr T1" "nav_inv (current_line T) ?hs T1" by blast
  let ?p = "pos (cmd_history T1)"
  from T1(2) have p: "- 1 \<le> ?p" by (simp add: nav_inv_def)
  then have "int (nat (?p + 1)) \<le> ?p + 1" by simp
  from navigate_n_down_inv [OF T1(2) this] obtain T2
    where T2: "navigate_n False (nat (?p + 1)) T1 = Inr T2" "nav_inv (current_line T) ?hs T2"
      "pos (cmd_history T2) = ?p - int (nat (?p + 1))" by blast
  from T2(3) p have home: "pos (cmd_history T2) = - 1" by simp
  with T2(2) have line: "current_line T2 = current_line T" by (simp add: nav_inv_def)
  have before: "\<exists>T3. navigate_n False j T1 = Inr T3 \<and> pos (cmd_history T3) \<noteq> - 1"
    if "j < nat (?p + 1)" for j
  proof -
    from that have "int j \<le> ?p + 1" by simp
    from navigate_n_down_inv [OF T1(2) this] obtain T3
      where "navigate_n False j T1 = Inr T3" "pos (cmd_history T3) = ?p - int j" by blast
    with that show ?thesis by auto
  qed
  from T1(1) T2(1) home line before show ?thesis by blast
qed

theorem navigate_up_then_down_restores_line_witness:
  "pos (cmd_history nav_demo) = - 1
   \<and> (\<exists>T1. navigate_n True 5 nav_demo = Inr T1 \<and> pos (cmd_history T1) = 1
        \<and> (\<exists>T2. navigate_n False 2 T1 = Inr T2 \<and> current_line T2 = Some ''dra''))"
proof -
  have h: "pos (cmd_history nav_demo) = - 1" by (simp add: nav_demo_def)
  have e: "navigate_n True 5 nav_demo = Inr (nav_demo\<lparr>current_line := Some ''door'',
     cmd_history := \<lparr>history = [''ls'', ''door''], maxlen = 50, pos = 1, saved_line = Some ''dra''\<rparr>\<rparr>)"
    by (simp add: eval_nat_numeral nav_demo_def navigate_def Let_def getitem_def
        get_current_line_def set_current_line_def)
  from navigate_up_then_down_restores_line [OF h, of 5] e h show ?thesis
    by (auto simp: nav_demo_def)
qed

section \<open>The hex editor: the end of a session\<close>

lemma editor0_fields:
  "heap editor0 = table_plain" "start_data editor0 = [0, 1, 2]" "end_data editor0 = [0, 1, 2]"
  "row editor0 = 0" "col editor0 = 0" "state editor0 = QUERY_ROW" "completed_flag editor0 = False"
  by (simp_all add: editor0_def start_def output_data_def start_table_def table_plain_def
      HexEditor_init_def Let_def upt_rec)

text \<open>
  Independently of line 153, a generated row whose first cell is 6 makes rule (d) read
  column 6 of a six-column row (line 161), which raises IndexError.
\<close>

lemma first_cell_six_raises:
  "generated table_six
   \<and> data_correct_loop 3 0 zero_vars (zip table_six table_six) = Inl IndexError"
  by code_simp

text \<open>
  Claim C1 says that the check of a completed session returns a verdict without raising.
  The code raises on every completed session: line 153 unpacks three values into four
  names. Here the editor is started on \<open>table_plain\<close> and the player declines all three
  rows: \<^verbatim>\<open>text_input\<close> ends with ValueError, the program is in its FINISHED state and
  not completed, and nothing was written to the terminal (no failure message, no
  freeze).
\<close>

theorem completed_session_raises:
  "generated table_plain
   \<and> fst session_plain = Inl ValueError
   \<and> exited (snd session_plain)
   \<and> \<not> completed (snd session_plain)
   \<and> terminal (snd session_plain) = terminal editor0"
  by code_simp

section \<open>The hex editor: the two tables share their rows\<close>

lemma start_aliases: "end_data (snd (start rows s)) = start_data (snd (start rows s))"
  by (simp add: start_def output_data_def Let_def split: list.splits)

lemma set_cell_data:
  "set_cell v s = Inr s' \<Longrightarrow> start_data s' = start_data s \<and> end_data s' = end_data s"
  by (auto simp: set_cell_def Let_def split: sum.splits if_splits)

lemma text_input_data:
  "start_data (snd (text_input l s)) = start_data s
   \<and> end_data (snd (text_input l s)) = end_data s"
  by (auto simp: text_input_def Let_def check_finished_cases
      split: States.splits sum.splits dest: set_cell_data)

text \<open>
  So once \<^verbatim>\<open>start()\<close> has run, the edited table and the reference table are the same rows
  after every input.
\<close>

lemma tables_stay_aliased:
  "end_data s = start_data s \<Longrightarrow>
   end_table (snd (text_input l s)) = start_table (snd (text_input l s))"
  by (simp add: end_table_def start_table_def text_input_data)

text \<open>
  Claim C2 says that a write into the edited table leaves the reference table as
  \<^verbatim>\<open>start()\<close> generated it. In the code \<^verbatim>\<open>list(self._start_data)\<close> copies the outer list
  only, so both tables hold the same row objects: after the lines "y", "0", "f" on
  \<open>editor0\<close> the reference table's cell (0, 0) is 0xf as well, where \<^verbatim>\<open>start()\<close> had put 7.
\<close>

theorem edit_changes_reference_table:
  "start_table editor0 = table_plain
   \<and> fst session_edit = Inr ()
   \<and> end_table (snd session_edit) = [[15, 1, 1, 1, 1, 8], [9, 2, 3, 4, 5, 9], [8, 1, 2, 3, 4, 10]]
   \<and> start_table (snd session_edit) = [[15, 1, 1, 1, 1, 8], [9, 2, 3, 4, 5, 9], [8, 1, 2, 3, 4, 10]]"
  by code_simp

section \<open>The hex editor: bad input\<close>

text \<open>
  Claim C3 as stated fails: in ENTER_COL line 89 stores the parsed number in
  \<^verbatim>\<open>self._col\<close> before line 93 checks its range. On \<open>editor_at_col\<close> (column cursor 0) the
  line "9" raises "Column out of range" and leaves the column cursor at 9.
\<close>

theorem out_of_range_column_is_kept:
  "state editor_at_col = ENTER_COL
   \<and> col editor_at_col = 0
   \<and> fst (text_input ''9'' editor_at_col) = Inl (BadInput ''Column out of range'')
   \<and> col (snd (text_input ''9'' editor_at_col)) = 9
   \<and> snd (text_input ''9'' editor_at_col) \<noteq> editor_at_col"
proof -
  have a: "state editor_at_col = ENTER_COL \<and> col editor_at_col = 0
           \<and> fst (text_input ''9'' editor_at_col) = Inl (BadInput ''Column out of range'')
           \<and> col (snd (text_input ''9'' editor_at_col)) = 9"
    by code_simp
  then have "col (snd (text_input ''9'' editor_at_col)) \<noteq> col editor_at_col" by simp
  then have "snd (text_input ''9'' editor_at_col) \<noteq> editor_at_col" by auto
  with a show ?thesis by simp
qed

text \<open>
  Claim C3, amended. When \<^verbatim>\<open>text_input\<close> raises the bad-input signal, everything but the
  column cursor is as before the call: stage, row cursor, both tables, the completed
  flag and the terminal. For "Not a number" (a column or a value that does not parse)
  the column cursor is unchanged too; the only other reason is "Column out of range",
  raised in ENTER_COL, and then the column cursor holds the number that was entered.
\<close>

theorem bad_input_leaves_state:
  assumes "text_input line s = (Inl (BadInput m), s')"
  shows "s' = s\<lparr>col := col s'\<rparr>
         \<and> (m = ''Not a number'' \<longrightarrow> s' = s)
         \<and> (m \<noteq> ''Not a number'' \<longrightarrow>
              m = ''Column out of range'' \<and> state s = ENTER_COL
              \<and> py_int 10 (lower (lstrip line)) = Inr (col s'))"
  using assms
  by (auto simp: text_input_def Let_def check_finished_cases
      split: States.splits if_splits sum.splits dest: getitem_error set_cell_error)


theorem bad_input_leaves_state_witness:
  "text_input ''9'' editor_at_col
     = (Inl (BadInput ''Column out of range''), editor_at_col\<lparr>col := 9\<rparr>)
   \<and> text_input ''x'' editor_at_col = (Inl (BadInput ''Not a number''), editor_at_col)"
proof -
  have a: "text_input ''9'' editor_at_col
             = (Inl (BadInput ''Column out of range''), snd (text_input ''9'' editor_at_col))"
    by code_simp
  have b: "text_input ''x'' editor_at_col
             = (Inl (BadInput ''Not a number''), snd (text_input ''x'' editor_at_col))"
    by code_simp
  have c: "col (snd (text_input ''9'' editor_at_col)) = 9" by code_simp
  from bad_input_leaves_state [OF a] c
  have "snd (text_input ''9'' editor_at_col) = editor_at_col\<lparr>col := 9\<rparr>" by simp
  moreover from bad_input_leaves_state [OF b]
  have "snd (text_input ''x'' editor_at_col) = editor_at_col" by simp
  ultimately show ?thesis using a b by simp
qed

section \<open>The hex editor: answering the row query\<close>

text \<open>
  Claim C10. In QUERY_ROW no line raises the bad-input signal. A line that, stripped of
  leading whitespace and lowercased, does not start with "y" (the empty line included)
  advances the row cursor by one and leaves the program in QUERY_ROW, or in FINISHED
  when that was the last row; it never reaches ENTER_COL. A line that does start with "y"
  keeps the row cursor and, the cursor being on a row of the table, moves to ENTER_COL.
\<close>

theorem query_row_answers:
  assumes "state s = QUERY_ROW"
  shows "(\<forall>m. fst (text_input line s) \<noteq> Inl (BadInput m))
         \<and> (if startswith (lower (lstrip line)) ''y''
            then row (snd (text_input line s)) = row s
                 \<and> (row s \<noteq> int (length (start_data s))
                      \<longrightarrow> state (snd (text_input line s)) = ENTER_COL)
            else row (snd (text_input line s)) = row s + 1
                 \<and> state (snd (text_input line s))
                     = (if row s + 1 = int (length (start_data s)) then FINISHED
                        else QUERY_ROW))"
  using assms
  by (auto simp: text_input_def Let_def check_finished_cases)

theorem query_row_answers_witness:
  "state editor0 = QUERY_ROW
   \<and> fst (text_input [] editor0) = Inr ()
   \<and> row (snd (text_input [] editor0)) = 1 \<and> state (snd (text_input [] editor0)) = QUERY_ROW
   \<and> row (snd (text_input ''maybe'' editor0)) = 1
   \<and> state (snd (text_input ''maybe'' editor0)) = QUERY_ROW
   \<and> row (snd (text_input ''  Yes'' editor0)) = 0
   \<and> state (snd (text_input ''  Yes'' editor0)) = ENTER_COL"
proof -
  have q: "state editor0 = QUERY_ROW" by (simp add: editor0_fields)
  have e: "fst (text_input [] editor0) = Inr ()" by code_simp
  have y: "startswith (lower (lstrip ''  Yes'')) ''y''" by code_simp
  have n: "\<not> startswith (lower (lstrip [])) ''y''" "\<not> startswith (lower (lstrip ''maybe'')) ''y''"
    by code_simp+
  from query_row_answers [OF q, of "[]"] query_row_answers [OF q, of "''maybe''"]
    query_row_answers [OF q, of "''  Yes''"] q e y n
  show ?thesis by (simp add: editor0_fields)
qed

section \<open>The correctness check: a submission without edits\<close>

text \<open>
  Claim C4 as stated fails in both directions. Every row of \<open>table_plain\<close> falls into the
  "no edit expected" branch, yet the check of the session that declines every row does
  not pass: it raises at line 153. And the row rules themselves accept the unedited
  \<open>table_rule_d\<close>, whose first row is not in that branch: rule (d) asks for a zero at
  column 1, which is there already (the note at lines 210-211 says as much).
\<close>

theorem zero_edit_not_iff_no_edit_branch:
  "list_all no_edit_expected table_plain
   \<and> start_table (snd session_plain) = table_plain
   \<and> end_table (snd session_plain) = table_plain
   \<and> data_correct (snd session_plain) = Inl ValueError
   \<and> generated table_rule_d
   \<and> \<not> list_all no_edit_expected table_rule_d
   \<and> data_correct_loop 3 0 zero_vars (zip table_rule_d table_rule_d) = Inr True"
  by code_simp

text \<open>
  Claim C4, amended. Whatever values the counters start from, the row rules of the check
  (the loop of lines 154-215) accept a submission with no edits exactly when every row
  either falls into the "no edit expected" branch or is a rule (d) row that already
  holds a zero where the rule wants one.
\<close>

theorem zero_edit_pass_iff:
  "data_correct_loop n 0 v (zip tbl tbl) = Inr True
     \<longleftrightarrow> list_all (\<lambda>r. no_edit_expected r \<or> rule_d_already_met r) tbl"
  by (rule loop_unedited) simp


theorem zero_edit_pass_iff_example:
  "data_correct_loop 3 0 zero_vars (zip table_rule_d table_rule_d) = Inr True
   \<and> rule_d_already_met (table_rule_d ! 0)
   \<and> no_edit_expected (table_rule_d ! 1) \<and> no_edit_expected (table_rule_d ! 2)
   \<and> data_correct_loop 3 0 zero_vars (zip table_ref table_ref) \<noteq> Inr True
   \<and> \<not> no_edit_expected (table_ref ! 0) \<and> \<not> rule_d_already_met (table_ref ! 0)"
proof -
  have a: "list_all (\<lambda>r. no_edit_expected r \<or> rule_d_already_met r) table_rule_d" by code_simp
  have b: "\<not> list_all (\<lambda>r. no_edit_expected r \<or> rule_d_already_met r) table_ref" by code_simp
  have c: "rule_d_already_met (table_rule_d ! 0) \<and> no_edit_expected (table_rule_d ! 1)
           \<and> no_edit_expected (table_rule_d ! 2) \<and> \<not> no_edit_expected (table_ref ! 0)
           \<and> \<not> rule_d_already_met (table_ref ! 0)"
    by code_simp
  from zero_edit_pass_iff [of 3 zero_vars table_rule_d] zero_edit_pass_iff [of 3 zero_vars table_ref]
    a b c show ?thesis by simp
qed

section \<open>The correctness check: the last row\<close>

text \<open>
  Claim C5 as stated fails. Line 157 is tested before line 177, so a last row whose
  predecessor was not edited is judged by the first-row rules. In \<open>table_ref\<close> and
  \<open>table_edited\<close> one earlier row is edited, the second row is not, and the last row ends
  in 10 and not in 1: the row rules accept. (The check itself, run on \<open>editor_pair\<close>, which
  holds these tables, raises at line 153 instead of returning a verdict.)
\<close>

theorem last_row_rule_skipped:
  "data_correct_loop 3 0 zero_vars (zip table_ref table_edited) = Inr True
   \<and> length (filter edited (butlast (zip table_ref table_edited))) = 1
   \<and> \<not> edited (zip table_ref table_edited ! 1)
   \<and> getitem (snd (last (zip table_ref table_edited))) (- 1) = Inr 10
   \<and> start_table editor_pair = table_ref \<and> end_table editor_pair = table_edited
   \<and> data_correct editor_pair = Inl ValueError"
  by code_simp

text \<open>
  Claim C5, amended. The last-row rule applies when the row before the last was edited.
  Then the row rules (the loop of lines 154-215) accept only if the last row's final cell
  equals the count of edits so far, which is the value \<open>edits\<close> starts from plus the
  number of edited rows before the last, and its other cells are those of the
  reference row.
\<close>

theorem last_row_rule:
  assumes "data_correct_loop (length rows) 0 v rows = Inr True"
    and "2 \<le> length rows"
    and "edited (rows ! (length rows - 2))"
  shows "getitem (snd (last rows)) (- 1)
           = Inr (edits v + int (length (filter edited (butlast rows))))
         \<and> butlast (snd (last rows)) = butlast (fst (last rows))"
proof -
  from assms(2) have "rows \<noteq> []" "length rows \<noteq> 1" by auto
  with loop_last_row [OF assms(1), of] assms(3) show ?thesis by simp
qed


theorem last_row_rule_witness:
  "data_correct_loop 3 0 zero_vars (zip table_ref2 table_edited2) = Inr True
   \<and> edited (zip table_ref2 table_edited2 ! 1)
   \<and> length (filter edited (butlast (zip table_ref2 table_edited2))) = 2
   \<and> getitem (snd (last (zip table_ref2 table_edited2))) (- 1) = Inr 2
   \<and> butlast (snd (last (zip table_ref2 table_edited2)))
       = butlast (fst (last (zip table_ref2 table_edited2)))"
proof -
  have a: "data_correct_loop (length (zip table_ref2 table_edited2)) 0 zero_vars
             (zip table_ref2 table_edited2) = Inr True"
    by code_simp
  have b: "2 \<le> length (zip table_ref2 table_edited2)" by code_simp
  have c: "edited (zip table_ref2 table_edited2 ! (length (zip table_ref2 table_edited2) - 2))"
    by code_simp
  have d: "length (zip table_ref2 table_edited2) = 3 \<and> edits zero_vars = 0
           \<and> length (filter edited (butlast (zip table_ref2 table_edited2))) = 2"
    by code_simp
  have e: "data_correct_loop 3 0 zero_vars (zip table_ref2 table_edited2) = Inr True
           \<and> edited (zip table_ref2 table_edited2 ! 1)"
    by code_simp
  from last_row_rule [OF a b c] d e show ?thesis by simp
qed

section \<open>The correctness check: an edit that was not expected\<close>

text \<open>
  What the row rules do with an edit they did not expect (lines 212-213): where they
  accept, every edited row was one for which the rule in force asked for an edit.
\<close>

lemma unexpected_edit_rejected_by_rows:
  "data_correct_loop 3 0 zero_vars (zip table_plain table_plain_edited) = Inr False
   \<and> data_correct_loop 3 0 zero_vars (zip table_plain_edited table_plain_edited) = Inr True"
  by code_simp

text \<open>
  Claim C6 says that one unexpected edit makes the attempt fail. No rule asks for an edit
  of \<open>table_plain\<close>. The session that changes cell (0, 0) from 7 to 8 and declines the other
  rows ends with ValueError from line 153 instead of the failing verdict: no failure
  message, no freeze. Moreover the edit went into the shared row objects, so at the
  check both tables hold the edited row and no edit is to be seen.
\<close>

theorem unexpected_edit_session_raises:
  "list_all no_edit_expected table_plain
   \<and> fst session_unexpected = Inl ValueError
   \<and> exited (snd session_unexpected) \<and> \<not> completed (snd session_unexpected)
   \<and> terminal (snd session_unexpected) = terminal editor0
   \<and> end_table (snd session_unexpected) = table_plain_edited
   \<and> start_table (snd session_unexpected) = table_plain_edited"
  by code_simp

section \<open>Command dispatch: blocked commands\<close>

text \<open>
  Claim C7 as stated fails where a prerequisite is not itself a registered command:
  nothing validates the dependency map, and line 159 looks every prerequisite up in the
  registry. In \<open>ghost_terminal\<close> the command \<^verbatim>\<open>door\<close> needs \<^verbatim>\<open>lock\<close>, which is not completed, and
  \<^verbatim>\<open>ghost\<close>, which is not registered: entering \<^verbatim>\<open>door\<close> raises KeyError and the terminal is
  left as it was, without a blocked-by message.
\<close>

theorem unregistered_prerequisite_raises:
  "map_of (programs ghost_terminal) ''door'' \<noteq> None
   \<and> map_of (depends ghost_terminal) ''door'' = Some [''lock'', ''ghost'']
   \<and> map (prog_completed \<circ> snd) (programs ghost_terminal) = [False, False]
   \<and> process_command ''door'' ghost_terminal = (Inl KeyError, ghost_terminal)"
  by (simp add: ghost_terminal_def door_terminal_def process_command_def is_cmd_runnable_def
      lookup_def)


text \<open>
  Claim C7, amended. For a registered command with a prerequisite whose program does not
  report completed, \<^verbatim>\<open>_process_command\<close> calls \<^verbatim>\<open>start()\<close> on no program. If every prerequisite
  of the command is a registered command, it outputs the blocked-by line with the labels
  of all unmet prerequisites, in their order; otherwise it raises KeyError and outputs
  nothing.
\<close>

theorem blocked_command:
  assumes "map_of (programs T) cmd \<noteq> None"
    and "map_of (depends T) cmd = Some deps"
    and "\<exists>c \<in> set deps. \<exists>q. map_of (programs T) c = Some q \<and> \<not> prog_completed q"
  shows "programs (snd (process_command cmd T)) = programs T
         \<and> (set deps \<subseteq> fst ` set (programs T) \<longrightarrow>
              process_command cmd T =
                (Inr (), output_lines [cmd @ '' currently blocked by: '' @
                                       join '', '' (map security_type (unmet (programs T) deps))] T))
         \<and> (\<not> set deps \<subseteq> fst ` set (programs T) \<longrightarrow>
              process_command cmd T = (Inl KeyError, T))"
proof -
  from assms(3) obtain c q where "c \<in> set deps" "map_of (programs T) c = Some q"
    "\<not> prog_completed q" by blast
  then have ne: "unmet (programs T) deps \<noteq> []" by (rule unmet_nonempty)
  show ?thesis
  proof (cases "set deps \<subseteq> fst ` set (programs T)")
    case True
    with assms(1,2) ne show ?thesis
      by (simp add: process_command_def is_cmd_runnable_def blocked_on_eq output_lines_def)
  next
    case False
    with assms(1,2) show ?thesis
      by (simp add: process_command_def is_cmd_runnable_def blocked_on_eq)
  qed
qed


theorem blocked_command_witness:
  "process_command ''door'' door_terminal =
     (Inr (), output_lines [''door currently blocked by: software lock''] door_terminal)
   \<and> programs (snd (process_command ''door'' door_terminal)) = programs door_terminal"
proof -
  have a: "map_of (programs door_terminal) ''door'' \<noteq> None" by (simp add: door_terminal_def)
  have b: "map_of (depends door_terminal) ''door'' = Some [''lock'']"
    by (simp add: door_terminal_def)
  have c: "\<exists>c \<in> set [''lock'']. \<exists>q. map_of (programs door_terminal) c = Some q \<and> \<not> prog_completed q"
    by (simp add: door_terminal_def)
  have d: "set [''lock''] \<subseteq> fst ` set (programs door_terminal)" by (simp add: door_terminal_def)
  have e: "unmet (programs door_terminal) [''lock''] =
             [\<lparr>prog_completed = False, security_type = ''software lock'',
               help_text = ''Modify raw software data.'', start_calls = 0\<rparr>]"
    by (simp add: unmet_def door_terminal_def)
  from blocked_command [OF a b c] d e show ?thesis by (simp add: output_lines_def)
qed


end
